theory Spec2Isabelle
  imports Main
begin

section \<open>JavaScript values\<close>

text \<open>
  The values that flow through \<^verbatim>\<open>src/index.js\<close>: the error handed to a completion
  function, the payload of an event, the name of an event and the receiver of a call.
  Numbers are restricted to the integers and \<^verbatim>\<open>NaN\<close>; objects are addresses.
\<close>

datatype jsval =
    Undefined
  | Null
  | JBool bool
  | JNum int
  | JNaN
  | JStr string
  | JObj nat

text \<open>What \<^verbatim>\<open>if (v)\<close> and \<^verbatim>\<open>v || ...\<close> test.\<close>

fun truthy :: "jsval \<Rightarrow> bool" where
  "truthy Undefined = False"
| "truthy Null = False"
| "truthy (JBool b) = b"
| "truthy (JNum n) = (n \<noteq> 0)"
| "truthy JNaN = False"
| "truthy (JStr s) = (s \<noteq> [])"
| "truthy (JObj a) = True"

text \<open>
  The module is not in strict mode, so a plain call \<^verbatim>\<open>f(x)\<close> of one of its
  functions binds \<^verbatim>\<open>this\<close> to the global object: the object at address 0.
\<close>

definition globalThis :: jsval where
  "globalThis = JObj 0"

section \<open>Listeners and the closures of one conversion\<close>

text \<open>
  A listener is either a function of the caller (known by its identity only) or one of
  the three closures that the replaced \<^verbatim>\<open>stream.on\<close> hands to the original
  \<^verbatim>\<open>on\<close> (lines 46, 57 and 67); such a closure belongs to one call of
  \<^verbatim>\<open>convertToAsyncStream\<close> (the number) and holds the listener it wraps.
\<close>

datatype listener =
    UserFn nat
  | DataWrap nat listener
  | EndWrap nat listener
  | ErrorWrap nat listener

text \<open>
  An argument passed to a listener: a value, the per-item completion function of line 48
  (a fresh closure at every item), the completion function of line 59, or
  \<^verbatim>\<open>asyncCallback\<close> itself (line 68).
\<close>

datatype harg = Val jsval | PerItemDone | EndDoneFn | AsyncCallbackFn

section \<open>The state of one conversion\<close>

text \<open>
  The variables that the closures of one call of \<^verbatim>\<open>convertToAsyncStream\<close> share:
  \<^verbatim>\<open>is_done\<close> and \<^verbatim>\<open>pending\<close> (lines 38, 39) and the \<^verbatim>\<open>called\<close> flag of
  \<^verbatim>\<open>callOnce\<close> (line 11). \<^verbatim>\<open>pending\<close> is a JavaScript number that only
  \<^verbatim>\<open>++\<close> and \<^verbatim>\<open>--\<close> touch; it is an integer here (exact for a number below
  \<^verbatim>\<open>2^53\<close> in absolute value). The two lists record what the code does to the
  outside: \<open>fired\<close> has one entry, receiver and arguments, for every execution of
  \<^verbatim>\<open>callback.apply(this, arguments)\<close>, and \<open>handled\<close> one entry for every call
  of a registered listener.
\<close>

record coord =
  is_done :: bool
  pending :: int
  called :: bool
  callback :: nat
  fired :: "(jsval \<times> jsval list) list"
  handled :: "(listener \<times> harg list) list"

text \<open>Lines 38 to 40: the state right after \<^verbatim>\<open>convertToAsyncStream\<close> has run.\<close>

definition new_coord :: "nat \<Rightarrow> coord" where
  "new_coord cb =
     \<lparr>is_done = False, pending = 0, called = False, callback = cb,
      fired = [], handled = []\<rparr>"

text \<open>
  Lines 13 to 18, the function that \<^verbatim>\<open>callOnce\<close> returns, bound to
  \<^verbatim>\<open>asyncCallback\<close> at line 40.
\<close>

definition asyncCallback :: "jsval \<Rightarrow> jsval list \<Rightarrow> coord \<Rightarrow> coord" where
  "asyncCallback this args s =
     (if \<not> called s
      then s\<lparr>called := True, fired := fired s @ [(this, args)]\<rparr>
      else s)"

text \<open>Lines 46 to 48: the closure registered for \<^verbatim>\<open>"data"\<close>, up to the call of the listener.\<close>

definition data_handler :: "listener \<Rightarrow> jsval \<Rightarrow> coord \<Rightarrow> coord" where
  "data_handler l d s =
     s\<lparr>pending := pending s + 1,
       handled := handled s @ [(l, [Val d, PerItemDone])]\<rparr>"

text \<open>Lines 48 to 53: the per-item completion function.\<close>

definition item_done :: "jsval \<Rightarrow> coord \<Rightarrow> coord" where
  "item_done err s =
     (let s' = s\<lparr>pending := pending s - 1\<rparr>
      in if truthy err \<or> (is_done s' \<and> pending s' = 0)
         then asyncCallback globalThis [err] s'
         else s')"

text \<open>Lines 57 to 59: the closure registered for \<^verbatim>\<open>"end"\<close>, up to the call of the listener.\<close>

definition end_handler :: "listener \<Rightarrow> coord \<Rightarrow> coord" where
  "end_handler l s =
     s\<lparr>is_done := True, handled := handled s @ [(l, [EndDoneFn])]\<rparr>"

text \<open>Lines 59 to 63: the completion function of the end listener.\<close>

definition end_done :: "coord \<Rightarrow> coord" where
  "end_done s = (if pending s = 0 then asyncCallback globalThis [] s else s)"

text \<open>Lines 67 to 69: the closure registered for \<^verbatim>\<open>"error"\<close>.\<close>

definition error_handler :: "listener \<Rightarrow> jsval \<Rightarrow> coord \<Rightarrow> coord" where
  "error_handler l err s =
     s\<lparr>handled := handled s @ [(l, [Val err, AsyncCallbackFn])]\<rparr>"

section \<open>Event sequences\<close>

text \<open>
  Everything that happens to one conversion is a call of one of its closures. Each closure
  calls the listener, or \<^verbatim>\<open>asyncCallback\<close>, as its last action, so a completion
  function that the listener calls at once and one that is called later both run after
  the closure's own updates: a run is a flat sequence of calls.
  \<^item> \<open>EmitData l d\<close>: the source emits the item \<open>d\<close> to the data closure wrapping \<open>l\<close>;
  \<^item> \<open>ItemDone i err\<close>: the completion function created at the \<open>i\<close>-th item
    (counting from 0) is called with \<open>err\<close>;
  \<^item> \<open>EmitEnd l\<close>: the source emits the end signal to the end closure wrapping \<open>l\<close>;
  \<^item> \<open>EndDone\<close>: a completion function created at an end signal is called;
  \<^item> \<open>EmitError l err\<close>: the source emits \<open>err\<close> to the error closure wrapping \<open>l\<close>;
  \<^item> \<open>CallGate this args\<close>: \<^verbatim>\<open>asyncCallback\<close>, handed out to an error
    listener, is called with this receiver and these arguments.
\<close>

datatype event =
    EmitData listener jsval
  | ItemDone nat jsval
  | EmitEnd listener
  | EndDone
  | EmitError listener jsval
  | CallGate jsval "jsval list"

fun step :: "event \<Rightarrow> coord \<Rightarrow> coord" where
  "step (EmitData l d) s = data_handler l d s"
| "step (ItemDone i err) s = item_done err s"
| "step (EmitEnd l) s = end_handler l s"
| "step EndDone s = end_done s"
| "step (EmitError l err) s = error_handler l err s"
| "step (CallGate this args) s = asyncCallback this args s"

fun run :: "event list \<Rightarrow> coord \<Rightarrow> coord" where
  "run [] s = s"
| "run (e # es) s = run es (step e s)"

text \<open>
  Which closures exist, and which per-item completion functions have been called:
  \<open>issued\<close> counts the items emitted so far, \<open>completed\<close> holds the items whose
  completion function has been called, \<open>ended\<close> and \<open>gate_out\<close> say whether an end
  completion function and \<^verbatim>\<open>asyncCallback\<close> have been handed to a listener.
\<close>

record track =
  issued :: nat
  completed :: "nat set"
  ended :: bool
  gate_out :: bool

definition track0 :: track where
  "track0 = \<lparr>issued = 0, completed = {}, ended = False, gate_out = False\<rparr>"

fun track_step :: "event \<Rightarrow> track \<Rightarrow> track" where
  "track_step (EmitData l d) t = t\<lparr>issued := Suc (issued t)\<rparr>"
| "track_step (ItemDone i err) t = t\<lparr>completed := insert i (completed t)\<rparr>"
| "track_step (EmitEnd l) t = t\<lparr>ended := True\<rparr>"
| "track_step EndDone t = t"
| "track_step (EmitError l err) t = t\<lparr>gate_out := True\<rparr>"
| "track_step (CallGate this args) t = t"

fun tracked :: "event list \<Rightarrow> track \<Rightarrow> track" where
  "tracked [] t = t"
| "tracked (e # es) t = tracked es (track_step e t)"

text \<open>A function can only be called once it exists.\<close>

fun realizable_ev :: "event \<Rightarrow> track \<Rightarrow> bool" where
  "realizable_ev (ItemDone i err) t = (i < issued t)"
| "realizable_ev EndDone t = ended t"
| "realizable_ev (CallGate this args) t = gate_out t"
| "realizable_ev e t = True"

text \<open>A per-item completion function is not called a second time.\<close>

fun once_ev :: "event \<Rightarrow> track \<Rightarrow> bool" where
  "once_ev (ItemDone i err) t = (i \<notin> completed t)"
| "once_ev e t = True"

fun realizable :: "event list \<Rightarrow> track \<Rightarrow> bool" where
  "realizable [] t = True"
| "realizable (e # es) t = (realizable_ev e t \<and> realizable es (track_step e t))"

fun each_once :: "event list \<Rightarrow> track \<Rightarrow> bool" where
  "each_once [] t = True"
| "each_once (e # es) t = (once_ev e t \<and> each_once es (track_step e t))"

text \<open>The items whose handler has been called and has not completed yet.\<close>

definition outstanding :: "track \<Rightarrow> nat set" where
  "outstanding t = {..<issued t} - completed t"

section \<open>The replaced registration method\<close>

text \<open>What a call can throw: a \<^verbatim>\<open>TypeError\<close> of the language, or a value thrown by foreign code.\<close>

datatype js_error = TypeError | Thrown jsval

text \<open>
  The original \<^verbatim>\<open>stream.on\<close>, saved in \<^verbatim>\<open>stramOn\<close> (line 41), is code of the
  wrapped source: it is a parameter here. It takes the receiver, the event and the listener,
  acts on a world \<open>'w\<close> of its own, and returns a value or throws.
\<close>

type_synonym 'w on_fn = "jsval \<Rightarrow> jsval \<Rightarrow> listener \<Rightarrow> 'w \<Rightarrow> js_error + jsval \<times> 'w"

text \<open>
  Lines 43 to 72: the function assigned to \<^verbatim>\<open>stream.on\<close> by the conversion number
  \<open>c\<close>. \<^verbatim>\<open>switch\<close> compares with \<^verbatim>\<open>===\<close>; the value of
  \<^verbatim>\<open>stramOn.call(...)\<close> is dropped, an exception of it propagates, and the function
  ends without a \<^verbatim>\<open>return\<close>: its value is \<^verbatim>\<open>undefined\<close>. There is no
  \<^verbatim>\<open>default\<close> case.
\<close>

definition async_on :: "'w on_fn \<Rightarrow> nat \<Rightarrow> 'w on_fn" where
  "async_on stramOn c this event l w =
     (if event = JStr ''data'' then
        (case stramOn this event (DataWrap c l) w of
           Inl e \<Rightarrow> Inl e
         | Inr (r, w') \<Rightarrow> Inr (Undefined, w'))
      else if event = JStr ''end'' then
        (case stramOn this event (EndWrap c l) w of
           Inl e \<Rightarrow> Inl e
         | Inr (r, w') \<Rightarrow> Inr (Undefined, w'))
      else if event = JStr ''error'' then
        (case stramOn this event (ErrorWrap c l) w of
           Inl e \<Rightarrow> Inl e
         | Inr (r, w') \<Rightarrow> Inr (Undefined, w'))
      else Inr (Undefined, w))"





text \<open>When the first argument of a call is absent and when it is no error.\<close>

fun no_error :: "jsval list \<Rightarrow> bool" where
  "no_error [] = True"
| "no_error (a # as) = (\<not> truthy a)"

text \<open>
  The gate invariant: \<^verbatim>\<open>callback\<close> has run once if \<^verbatim>\<open>called\<close> is set and not at
  all otherwise.
\<close>

definition gate_inv :: "coord \<Rightarrow> bool" where
  "gate_inv s = (length (fired s) = (if called s then 1 else 0))"

text \<open>
  An example of an original \<^verbatim>\<open>on\<close>, for the concrete runs below: it registers the
  listener under the event and returns its receiver, as the \<^verbatim>\<open>on\<close> of an event
  emitter does. Its world is the list of registrations.
\<close>

definition emitter_on :: "(jsval \<times> listener) list on_fn" where
  "emitter_on this event l w = Inr (this, w @ [(event, l)])"

section \<open>The single-fire gate\<close>

lemma asyncCallback_open:
  "\<not> called s \<Longrightarrow> asyncCallback this args s = s\<lparr>called := True, fired := fired s @ [(this, args)]\<rparr>"
  by (simp add: asyncCallback_def)

lemma asyncCallback_closed: "called s \<Longrightarrow> asyncCallback this args s = s"
  by (simp add: asyncCallback_def)

lemma called_asyncCallback: "called (asyncCallback this args s)"
  by (simp add: asyncCallback_def)

lemma gate_inv_new: "gate_inv (new_coord cb)"
  by (simp add: gate_inv_def new_coord_def)

lemma gate_inv_asyncCallback: "gate_inv s \<Longrightarrow> gate_inv (asyncCallback this args s)"
  by (simp add: gate_inv_def asyncCallback_def)

lemma gate_inv_step: "gate_inv s \<Longrightarrow> gate_inv (step e s)"
proof (cases e)
  case (ItemDone i err)
  assume "gate_inv s"
  then have "gate_inv (s\<lparr>pending := pending s - 1\<rparr>)"
    by (simp add: gate_inv_def)
  then show ?thesis
    using ItemDone by (simp add: item_done_def Let_def gate_inv_asyncCallback)
next
  case EndDone
  assume "gate_inv s"
  then show ?thesis
    using EndDone by (simp add: end_done_def gate_inv_asyncCallback)
qed (simp_all add: gate_inv_def data_handler_def end_handler_def error_handler_def
      gate_inv_asyncCallback [unfolded gate_inv_def])

lemma gate_inv_run: "gate_inv s \<Longrightarrow> gate_inv (run es s)"
  by (induction es arbitrary: s) (simp_all add: gate_inv_step)

text \<open>Once closed the gate stays closed, and \<^verbatim>\<open>callback\<close> is not called again.\<close>

lemma closed_step: "called s \<Longrightarrow> called (step e s) \<and> fired (step e s) = fired s"
  by (cases e)
    (simp_all add: data_handler_def item_done_def end_handler_def end_done_def
      error_handler_def asyncCallback_def Let_def)

lemma closed_run: "called s \<Longrightarrow> called (run es s) \<and> fired (run es s) = fired s"
proof (induction es arbitrary: s)
  case Nil
  then show ?case by simp
next
  case (Cons e es)
  from Cons.prems have "called (step e s)" and "fired (step e s) = fired s"
    by (simp_all add: closed_step)
  with Cons.IH [of "step e s"] show ?case by simp
qed

lemma fired_new: "fired (new_coord cb) = []" and called_new: "\<not> called (new_coord cb)"
  by (simp_all add: new_coord_def)

lemma reachable_open_fired: "\<not> called (run es (new_coord cb)) \<Longrightarrow> fired (run es (new_coord cb)) = []"
  using gate_inv_run [OF gate_inv_new, of es cb] by (simp add: gate_inv_def)

text \<open>
  C1. However a conversion is driven, \<^verbatim>\<open>callback\<close> has been called at most once. At
  any point of a run, a call of the gate that finds it open calls \<^verbatim>\<open>callback\<close>
  with the receiver and the arguments of that call, which is then the only call on record;
  a call that finds it closed changes nothing at all; and after a call of the gate no
  later event, a further call of the gate included, calls \<^verbatim>\<open>callback\<close> again.
\<close>

theorem callOnce_single_fire:
  "length (fired (run es (new_coord cb))) \<le> 1
   \<and> (\<not> called (run es (new_coord cb)) \<longrightarrow>
        asyncCallback this args (run es (new_coord cb))
          = (run es (new_coord cb))\<lparr>called := True, fired := [(this, args)]\<rparr>)
   \<and> (called (run es (new_coord cb)) \<longrightarrow>
        asyncCallback this args (run es (new_coord cb)) = run es (new_coord cb))
   \<and> fired (run es' (asyncCallback this args (run es (new_coord cb))))
        = fired (asyncCallback this args (run es (new_coord cb)))"
proof -
  let ?s = "run es (new_coord cb)"
  have a: "length (fired ?s) \<le> 1"
    using gate_inv_run [OF gate_inv_new, of es cb] by (simp add: gate_inv_def)
  have b: "\<not> called ?s \<longrightarrow>
      asyncCallback this args ?s = ?s\<lparr>called := True, fired := [(this, args)]\<rparr>"
    by (simp add: asyncCallback_open reachable_open_fired)
  have c: "called ?s \<longrightarrow> asyncCallback this args ?s = ?s"
    by (simp add: asyncCallback_closed)
  have d: "fired (run es' (asyncCallback this args ?s)) = fired (asyncCallback this args ?s)"
    using closed_run [OF called_asyncCallback] by simp
  from a b c d show ?thesis by blast
qed

theorem callOnce_single_fire_witness:
  "\<not> called (run [EmitData (UserFn 0) (JNum 7)] (new_coord 0))
   \<and> fired (asyncCallback (JObj 3) [JStr ''E'', JNum 2] (run [EmitData (UserFn 0) (JNum 7)] (new_coord 0)))
       = [(JObj 3, [JStr ''E'', JNum 2])]
   \<and> called (run [EmitData (UserFn 0) (JNum 7), ItemDone 0 (JStr ''E'')] (new_coord 0))
   \<and> fired (asyncCallback (JObj 3) [JStr ''F''] (run [EmitData (UserFn 0) (JNum 7), ItemDone 0 (JStr ''E'')] (new_coord 0)))
       = [(globalThis, [JStr ''E''])]"
proof -
  let ?s1 = "run [EmitData (UserFn 0) (JNum 7)] (new_coord 0)"
  let ?s2 = "run [EmitData (UserFn 0) (JNum 7), ItemDone 0 (JStr ''E'')] (new_coord 0)"
  have h1: "\<not> called ?s1"
    by (simp add: new_coord_def data_handler_def)
  have h2: "called ?s2"
    by (simp add: new_coord_def data_handler_def item_done_def asyncCallback_def)
  have f2: "fired ?s2 = [(globalThis, [JStr ''E''])]"
    by (simp add: new_coord_def data_handler_def item_done_def asyncCallback_def)
  from callOnce_single_fire [of "[EmitData (UserFn 0) (JNum 7)]" 0 "JObj 3" "[JStr ''E'', JNum 2]" "[]"] h1
  have r1: "fired (asyncCallback (JObj 3) [JStr ''E'', JNum 2] ?s1) = [(JObj 3, [JStr ''E'', JNum 2])]"
    by simp
  from callOnce_single_fire [of "[EmitData (UserFn 0) (JNum 7), ItemDone 0 (JStr ''E'')]" 0 "JObj 3" "[JStr ''F'']" "[]"] h2
  have r2: "asyncCallback (JObj 3) [JStr ''F''] ?s2 = ?s2"
    by blast
  from h1 r1 h2 r2 f2 show ?thesis by simp
qed

lemmas coord_defs =
  new_coord_def data_handler_def item_done_def end_handler_def end_done_def
  error_handler_def asyncCallback_def Let_def


lemma run_append: "run (es @ fs) s = run fs (run es s)"
  by (induction es arbitrary: s) simp_all

lemma tracked_append: "tracked (es @ fs) t = tracked fs (tracked es t)"
  by (induction es arbitrary: t) simp_all

lemma realizable_append:
  "realizable (es @ fs) t = (realizable es t \<and> realizable fs (tracked es t))"
  by (induction es arbitrary: t) simp_all

lemma each_once_append:
  "each_once (es @ fs) t = (each_once es t \<and> each_once fs (tracked es t))"
  by (induction es arbitrary: t) simp_all

lemma item_done_error:
  "truthy err \<Longrightarrow> item_done err s = asyncCallback globalThis [err] (s\<lparr>pending := pending s - 1\<rparr>)"
  by (simp add: item_done_def Let_def)

section \<open>Errors of per-item handlers\<close>

text \<open>
  C2 (as amended). When a per-item completion function is called with a truthy error, it
  calls the gate with that error, whatever \<^verbatim>\<open>pending\<close> and \<^verbatim>\<open>is_done\<close> are.
  If the gate has not been called before in the run, \<^verbatim>\<open>callback\<close> is called with
  exactly that error at that moment and never again; if it has, the call is absorbed and
  the calls of \<^verbatim>\<open>callback\<close> on record stay what they were.
\<close>

theorem item_error_fires_gate:
  "truthy err \<Longrightarrow>
     step (ItemDone i err) s = asyncCallback globalThis [err] (s\<lparr>pending := pending s - 1\<rparr>)
     \<and> (\<not> called (run pre (new_coord cb)) \<longrightarrow>
          fired (run (pre @ ItemDone i err # post) (new_coord cb)) = [(globalThis, [err])])
     \<and> (called (run pre (new_coord cb)) \<longrightarrow>
          fired (run (pre @ ItemDone i err # post) (new_coord cb)) = fired (run pre (new_coord cb)))"
proof -
  assume t: "truthy err"
  let ?s = "run pre (new_coord cb)"
  have a: "step (ItemDone i err) s = asyncCallback globalThis [err] (s\<lparr>pending := pending s - 1\<rparr>)"
    using t by (simp add: item_done_error)
  have st: "step (ItemDone i err) ?s = asyncCallback globalThis [err] (?s\<lparr>pending := pending ?s - 1\<rparr>)"
    using t by (simp add: item_done_error)
  have cl: "called (step (ItemDone i err) ?s)"
    unfolding st by (rule called_asyncCallback)
  have r: "fired (run (pre @ ItemDone i err # post) (new_coord cb)) = fired (step (ItemDone i err) ?s)"
    using closed_run [OF cl, of post] by (simp add: run_append)
  have b: "\<not> called ?s \<longrightarrow> fired (run (pre @ ItemDone i err # post) (new_coord cb)) = [(globalThis, [err])]"
    unfolding r st by (simp add: asyncCallback_def reachable_open_fired)
  have c: "called ?s \<longrightarrow> fired (run (pre @ ItemDone i err # post) (new_coord cb)) = fired ?s"
    unfolding r st by (simp add: asyncCallback_def)
  from a b c show ?thesis by blast
qed

theorem item_error_fires_gate_witness:
  "truthy (JStr ''E'')
   \<and> \<not> called (run [EmitData (UserFn 0) (JNum 1), EmitData (UserFn 0) (JNum 2)] (new_coord 0))
   \<and> fired (run ([EmitData (UserFn 0) (JNum 1), EmitData (UserFn 0) (JNum 2)]
                 @ ItemDone 0 (JStr ''E'') # [ItemDone 1 Undefined, EmitEnd (UserFn 1), EndDone])
               (new_coord 0)) = [(globalThis, [JStr ''E''])]
   \<and> called (run [EmitEnd (UserFn 1), EndDone, EmitData (UserFn 0) (JNum 1)] (new_coord 0))
   \<and> fired (run ([EmitEnd (UserFn 1), EndDone, EmitData (UserFn 0) (JNum 1)]
                 @ ItemDone 0 (JStr ''E'') # []) (new_coord 0)) = [(globalThis, [])]"
proof -
  let ?p1 = "[EmitData (UserFn 0) (JNum 1), EmitData (UserFn 0) (JNum 2)]"
  let ?p2 = "[EmitEnd (UserFn 1), EndDone, EmitData (UserFn 0) (JNum 1)]"
  have t: "truthy (JStr ''E'')" by simp
  have h1: "\<not> called (run ?p1 (new_coord 0))" by (simp add: coord_defs)
  have h2: "called (run ?p2 (new_coord 0))" by (simp add: coord_defs)
  have f2: "fired (run ?p2 (new_coord 0)) = [(globalThis, [])]" by (simp add: coord_defs)
  from item_error_fires_gate [OF t, of 0 "new_coord 0" ?p1 0
      "[ItemDone 1 Undefined, EmitEnd (UserFn 1), EndDone]"] h1
  have r1: "fired (run (?p1 @ ItemDone 0 (JStr ''E'') # [ItemDone 1 Undefined, EmitEnd (UserFn 1), EndDone])
      (new_coord 0)) = [(globalThis, [JStr ''E''])]"
    by blast
  from item_error_fires_gate [OF t, of 0 "new_coord 0" ?p2 0 "[]"] h2 f2
  have r2: "fired (run (?p2 @ ItemDone 0 (JStr ''E'') # []) (new_coord 0)) = [(globalThis, [])]"
    by simp
  from t h1 r1 h2 r2 show ?thesis by blast
qed

text \<open>
  C2 as stated fails: two items are in flight, the first fails with \<^verbatim>\<open>E1\<close> and the
  second with \<^verbatim>\<open>E2\<close>. The second completion is called with a truthy error, and
  \<^verbatim>\<open>callback\<close> never receives \<^verbatim>\<open>E2\<close>.
\<close>

theorem second_item_error_absorbed:
  "truthy (JStr ''E2'')
   \<and> realizable [EmitData (UserFn 0) (JNum 1), EmitData (UserFn 0) (JNum 2),
        ItemDone 0 (JStr ''E1''), ItemDone 1 (JStr ''E2'')] track0
   \<and> each_once [EmitData (UserFn 0) (JNum 1), EmitData (UserFn 0) (JNum 2),
        ItemDone 0 (JStr ''E1''), ItemDone 1 (JStr ''E2'')] track0
   \<and> fired (run [EmitData (UserFn 0) (JNum 1), EmitData (UserFn 0) (JNum 2),
        ItemDone 0 (JStr ''E1''), ItemDone 1 (JStr ''E2'')] (new_coord 0))
       = [(globalThis, [JStr ''E1''])]
   \<and> (globalThis, [JStr ''E2''])
       \<notin> set (fired (run [EmitData (UserFn 0) (JNum 1), EmitData (UserFn 0) (JNum 2),
             ItemDone 0 (JStr ''E1''), ItemDone 1 (JStr ''E2'')] (new_coord 0)))"
  by (simp add: coord_defs track0_def)

section \<open>The last completion after the end signal\<close>

lemma falsy_completions:
  "\<forall>d \<in> set ds. \<not> truthy (snd d) \<Longrightarrow> int (length ds) < pending s \<Longrightarrow>
     run (map (case_prod ItemDone) ds) s = s\<lparr>pending := pending s - int (length ds)\<rparr>"
proof (induction ds arbitrary: s)
  case Nil
  then show ?case by simp
next
  case (Cons d ds)
  obtain i err where d: "d = (i, err)" by (cases d)
  from Cons.prems d have f: "\<not> truthy err" by simp
  from Cons.prems have p: "pending s - 1 \<noteq> 0" by simp
  have st: "step (ItemDone i err) s = s\<lparr>pending := pending s - 1\<rparr>"
    using f p by (simp add: item_done_def Let_def)
  have "run (map (case_prod ItemDone) ds) (s\<lparr>pending := pending s - 1\<rparr>)
        = (s\<lparr>pending := pending s - 1\<rparr>)\<lparr>pending := pending (s\<lparr>pending := pending s - 1\<rparr>) - int (length ds)\<rparr>"
    using Cons.prems by (intro Cons.IH) simp_all
  then show ?case using d st by simp
qed

lemma final_item_done:
  "\<not> truthy err \<Longrightarrow> is_done s \<Longrightarrow> pending s = 1 \<Longrightarrow>
     item_done err s = asyncCallback globalThis [err] (s\<lparr>pending := 0\<rparr>)"
  by (simp add: item_done_def Let_def)

text \<open>
  C3 (as amended). The end signal has arrived (\<^verbatim>\<open>is_done\<close> is set) and some
  per-item handlers are still pending: \<^verbatim>\<open>pending\<close> counts them, and \<open>ds\<close> lists
  their completions, in the order in which they happen, all without error. Then the
  completion of the end listener does nothing; no completion before the last one calls the
  gate (each only decrements \<^verbatim>\<open>pending\<close>); the last one, which is the first to find
  \<^verbatim>\<open>is_done\<close> set and \<^verbatim>\<open>pending\<close> at zero, calls the gate once, with its falsy
  argument. If the gate had not been called before, \<^verbatim>\<open>callback\<close> is called then,
  once, with that argument; if it had, the call is absorbed and the calls of
  \<^verbatim>\<open>callback\<close> on record stay what they were.
\<close>

theorem last_completion_fires_gate:
  assumes "is_done s" and "pending s = int (length ds)" and "ds \<noteq> []"
    and "\<forall>d \<in> set ds. \<not> truthy (snd d)"
  shows "step EndDone s = s
     \<and> (\<forall>k < length ds.
          run (map (case_prod ItemDone) (take k ds)) s = s\<lparr>pending := pending s - int k\<rparr>)
     \<and> run (map (case_prod ItemDone) ds) s
          = asyncCallback globalThis [snd (last ds)] (s\<lparr>pending := 0\<rparr>)
     \<and> (\<not> called s \<longrightarrow>
          fired (run (EndDone # map (case_prod ItemDone) ds) s) = fired s @ [(globalThis, [snd (last ds)])])
     \<and> (called s \<longrightarrow>
          fired (run (EndDone # map (case_prod ItemDone) ds) s) = fired s)"
proof -
  have a: "step EndDone s = s"
    using assms(2,3) by (simp add: end_done_def)
  have b: "\<forall>k < length ds.
      run (map (case_prod ItemDone) (take k ds)) s = s\<lparr>pending := pending s - int k\<rparr>"
  proof (intro allI impI)
    fix k assume k: "k < length ds"
    have "\<forall>d \<in> set (take k ds). \<not> truthy (snd d)"
      using assms(4) by (meson in_set_takeD)
    moreover have "int (length (take k ds)) < pending s"
      using k assms(2) by simp
    ultimately have "run (map (case_prod ItemDone) (take k ds)) s
        = s\<lparr>pending := pending s - int (length (take k ds))\<rparr>"
      by (rule falsy_completions)
    then show "run (map (case_prod ItemDone) (take k ds)) s = s\<lparr>pending := pending s - int k\<rparr>"
      using k by simp
  qed
  obtain i err where l: "last ds = (i, err)" by (cases "last ds")
  have sp: "ds = butlast ds @ [(i, err)]"
    using assms(3) l by (metis append_butlast_last_id)
  have f: "\<not> truthy err"
    using assms(3,4) l by (metis last_in_set snd_conv)
  have bl: "run (map (case_prod ItemDone) (butlast ds)) s = s\<lparr>pending := 1\<rparr>"
  proof -
    have "butlast ds = take (length ds - 1) ds" by (simp add: butlast_conv_take)
    moreover have "length ds - 1 < length ds" using assms(3) by simp
    ultimately have "run (map (case_prod ItemDone) (butlast ds)) s
        = s\<lparr>pending := pending s - int (length ds - 1)\<rparr>"
      using b by simp
    moreover have "pending s - int (length ds - 1) = 1"
      using assms(2,3) by (cases ds) simp_all
    ultimately show ?thesis by simp
  qed
  have "run (map (case_prod ItemDone) ds) s
      = step (ItemDone i err) (run (map (case_prod ItemDone) (butlast ds)) s)"
    by (subst sp) (simp add: run_append)
  also have "\<dots> = asyncCallback globalThis [err] (s\<lparr>pending := 0\<rparr>)"
    unfolding bl using f assms(1) by (simp add: final_item_done)
  finally have c: "run (map (case_prod ItemDone) ds) s
      = asyncCallback globalThis [snd (last ds)] (s\<lparr>pending := 0\<rparr>)"
    using l by simp
  have d: "\<not> called s \<longrightarrow>
      fired (run (EndDone # map (case_prod ItemDone) ds) s) = fired s @ [(globalThis, [snd (last ds)])]"
    using a c by (simp add: asyncCallback_def)
  have e: "called s \<longrightarrow> fired (run (EndDone # map (case_prod ItemDone) ds) s) = fired s"
    using a c by (simp add: asyncCallback_def)
  from a b c d e show ?thesis by blast
qed

theorem last_completion_fires_gate_witness:
  "is_done (run [EmitData (UserFn 0) (JNum 1), EmitData (UserFn 0) (JNum 2),
       EmitData (UserFn 0) (JNum 3), ItemDone 0 Undefined, EmitEnd (UserFn 1)] (new_coord 0))
   \<and> pending (run [EmitData (UserFn 0) (JNum 1), EmitData (UserFn 0) (JNum 2),
       EmitData (UserFn 0) (JNum 3), ItemDone 0 Undefined, EmitEnd (UserFn 1)] (new_coord 0)) = 2
   \<and> \<not> called (run [EmitData (UserFn 0) (JNum 1), EmitData (UserFn 0) (JNum 2),
       EmitData (UserFn 0) (JNum 3), ItemDone 0 Undefined, EmitEnd (UserFn 1)] (new_coord 0))
   \<and> fired (run (EndDone # map (case_prod ItemDone) [(2, Undefined), (1, Null)])
        (run [EmitData (UserFn 0) (JNum 1), EmitData (UserFn 0) (JNum 2),
          EmitData (UserFn 0) (JNum 3), ItemDone 0 Undefined, EmitEnd (UserFn 1)] (new_coord 0)))
       = [(globalThis, [Null])]
   \<and> fired (run (map (case_prod ItemDone) (take 1 [(2, Undefined), (1, Null)]))
        (run [EmitData (UserFn 0) (JNum 1), EmitData (UserFn 0) (JNum 2),
          EmitData (UserFn 0) (JNum 3), ItemDone 0 Undefined, EmitEnd (UserFn 1)] (new_coord 0)))
       = []
   \<and> called (run [EmitData (UserFn 0) (JNum 1), EmitData (UserFn 0) (JNum 2),
        ItemDone 0 (JStr ''E''), EmitEnd (UserFn 1)] (new_coord 0))
   \<and> fired (run (EndDone # map (case_prod ItemDone) [(1, Undefined)])
        (run [EmitData (UserFn 0) (JNum 1), EmitData (UserFn 0) (JNum 2),
          ItemDone 0 (JStr ''E''), EmitEnd (UserFn 1)] (new_coord 0)))
       = [(globalThis, [JStr ''E''])]"
proof -
  let ?s = "run [EmitData (UserFn 0) (JNum 1), EmitData (UserFn 0) (JNum 2),
       EmitData (UserFn 0) (JNum 3), ItemDone 0 Undefined, EmitEnd (UserFn 1)] (new_coord 0)"
  let ?ds = "[(2::nat, Undefined), (1, Null)]"
  have h1: "is_done ?s" by (simp add: coord_defs)
  have h2: "pending ?s = int (length ?ds)" by (simp add: coord_defs)
  have h3: "?ds \<noteq> []" by simp
  have h4: "\<forall>d \<in> set ?ds. \<not> truthy (snd d)" by simp
  have h5: "\<not> called ?s" by (simp add: coord_defs)
  have h6: "fired ?s = []" by (simp add: coord_defs)
  have h7: "(1::nat) < length ?ds" by simp
  have h8: "pending ?s = 2" by (simp add: coord_defs)
  note r = last_completion_fires_gate [OF h1 h2 h3 h4]
  have a0: "fired (run (EndDone # map (case_prod ItemDone) ?ds) ?s)
      = fired ?s @ [(globalThis, [snd (last ?ds)])]"
    using r h5 by blast
  have a: "fired (run (EndDone # map (case_prod ItemDone) ?ds) ?s) = [(globalThis, [Null])]"
    unfolding a0 h6 by simp
  have b0: "run (map (case_prod ItemDone) (take 1 ?ds)) ?s = ?s\<lparr>pending := pending ?s - int 1\<rparr>"
    using r h7 by blast
  have b: "fired (run (map (case_prod ItemDone) (take 1 ?ds)) ?s) = []"
    unfolding b0 using h6 by simp
  let ?t = "run [EmitData (UserFn 0) (JNum 1), EmitData (UserFn 0) (JNum 2),
        ItemDone 0 (JStr ''E''), EmitEnd (UserFn 1)] (new_coord 0)"
  let ?es = "[(1::nat, Undefined)]"
  have g1: "is_done ?t" by (simp add: coord_defs)
  have g2: "pending ?t = int (length ?es)" by (simp add: coord_defs)
  have g3: "?es \<noteq> []" by simp
  have g4: "\<forall>d \<in> set ?es. \<not> truthy (snd d)" by simp
  have g5: "called ?t" by (simp add: coord_defs)
  have g6: "fired ?t = [(globalThis, [JStr ''E''])]" by (simp add: coord_defs)
  have c0: "fired (run (EndDone # map (case_prod ItemDone) ?es) ?t) = fired ?t"
    using last_completion_fires_gate [OF g1 g2 g3 g4] g5 by blast
  have c: "fired (run (EndDone # map (case_prod ItemDone) ?es) ?t) = [(globalThis, [JStr ''E''])]"
    unfolding c0 g6 by simp
  from h1 h8 h5 a b g5 c show ?thesis by blast
qed

text \<open>
  C3 as stated fails: two items are in flight and the first fails with \<^verbatim>\<open>E\<close>; the end
  signal arrives and the end listener completes while the second is still pending; the
  second then completes without error. It is the last completion and it calls the gate,
  but the call is absorbed: \<^verbatim>\<open>callback\<close> has received \<^verbatim>\<open>E\<close> and is never called
  without error.
\<close>

theorem late_success_absorbed:
  "realizable [EmitData (UserFn 0) (JNum 1), EmitData (UserFn 0) (JNum 2),
       ItemDone 0 (JStr ''E''), EmitEnd (UserFn 1), EndDone, ItemDone 1 Undefined] track0
   \<and> each_once [EmitData (UserFn 0) (JNum 1), EmitData (UserFn 0) (JNum 2),
       ItemDone 0 (JStr ''E''), EmitEnd (UserFn 1), EndDone, ItemDone 1 Undefined] track0
   \<and> pending (run [EmitData (UserFn 0) (JNum 1), EmitData (UserFn 0) (JNum 2),
       ItemDone 0 (JStr ''E''), EmitEnd (UserFn 1), EndDone] (new_coord 0)) = 1
   \<and> is_done (run [EmitData (UserFn 0) (JNum 1), EmitData (UserFn 0) (JNum 2),
       ItemDone 0 (JStr ''E''), EmitEnd (UserFn 1), EndDone] (new_coord 0))
   \<and> \<not> truthy Undefined
   \<and> pending (run [EmitData (UserFn 0) (JNum 1), EmitData (UserFn 0) (JNum 2),
       ItemDone 0 (JStr ''E''), EmitEnd (UserFn 1), EndDone, ItemDone 1 Undefined] (new_coord 0)) = 0
   \<and> fired (run [EmitData (UserFn 0) (JNum 1), EmitData (UserFn 0) (JNum 2),
       ItemDone 0 (JStr ''E''), EmitEnd (UserFn 1), EndDone, ItemDone 1 Undefined] (new_coord 0))
       = [(globalThis, [JStr ''E''])]
   \<and> \<not> no_error [JStr ''E'']"
  by (simp add: coord_defs track0_def)

section \<open>The pending counter\<close>

lemma pending_handlers:
  "pending (data_handler l d s) = pending s + 1"
  "pending (item_done err s) = pending s - 1"
  "pending (end_handler l s) = pending s"
  "pending (end_done s) = pending s"
  "pending (error_handler l err s) = pending s"
  "pending (asyncCallback this args s) = pending s"
  by (simp_all add: coord_defs)

lemma is_done_handlers:
  "is_done (data_handler l d s) = is_done s"
  "is_done (item_done err s) = is_done s"
  "is_done (end_handler l s) = True"
  "is_done (end_done s) = is_done s"
  "is_done (error_handler l err s) = is_done s"
  "is_done (asyncCallback this args s) = is_done s"
  by (simp_all add: coord_defs)

lemma ended_step:
  "ended t \<longrightarrow> is_done s \<Longrightarrow> ended (track_step e t) \<longrightarrow> is_done (step e s)"
  by (cases e) (simp_all add: is_done_handlers)

lemma ended_run:
  "ended t \<longrightarrow> is_done s \<Longrightarrow> ended (tracked es t) \<longrightarrow> is_done (run es s)"
proof (induction es arbitrary: s t)
  case Nil
  then show ?case by simp
next
  case (Cons e es)
  from Cons.prems have "ended (track_step e t) \<longrightarrow> is_done (step e s)"
    by (rule ended_step)
  then show ?case using Cons.IH by simp
qed

lemma ended_is_done: "ended (tracked es track0) \<Longrightarrow> is_done (run es (new_coord cb))"
  using ended_run [of track0 "new_coord cb" es] by (simp add: track0_def)

text \<open>The counter against the bookkeeping of closures.\<close>

lemma count_step:
  assumes "completed t \<subseteq> {..<issued t}"
    and "pending s = int (issued t) - int (card (completed t))"
    and "realizable_ev e t" and "once_ev e t"
  shows "completed (track_step e t) \<subseteq> {..<issued (track_step e t)}
     \<and> pending (step e s) = int (issued (track_step e t)) - int (card (completed (track_step e t)))"
proof (cases e)
  case (EmitData l d)
  then show ?thesis using assms(1,2) by (auto simp: pending_handlers)
next
  case (ItemDone i err)
  have fin: "finite (completed t)"
    using assms(1) by (rule finite_subset) simp
  from ItemDone assms(4) have "i \<notin> completed t" by simp
  with fin have "card (insert i (completed t)) = Suc (card (completed t))" by simp
  then show ?thesis using ItemDone assms(1,2,3) by (auto simp: pending_handlers)
qed (use assms(1,2) in \<open>simp_all add: pending_handlers\<close>)

lemma count_run:
  assumes "completed t \<subseteq> {..<issued t}"
    and "pending s = int (issued t) - int (card (completed t))"
    and "realizable es t" and "each_once es t"
  shows "completed (tracked es t) \<subseteq> {..<issued (tracked es t)}
     \<and> pending (run es s) = int (issued (tracked es t)) - int (card (completed (tracked es t)))"
  using assms
proof (induction es arbitrary: s t)
  case Nil
  then show ?case by simp
next
  case (Cons e es)
  from Cons.prems have "completed (track_step e t) \<subseteq> {..<issued (track_step e t)}
     \<and> pending (step e s) = int (issued (track_step e t)) - int (card (completed (track_step e t)))"
    by (intro count_step) simp_all
  moreover from Cons.prems have "realizable es (track_step e t)" "each_once es (track_step e t)"
    by simp_all
  ultimately show ?case using Cons.IH [of "track_step e t" "step e s"] by simp
qed

lemma card_outstanding:
  "completed t \<subseteq> {..<issued t} \<Longrightarrow>
     int (card (outstanding t)) = int (issued t) - int (card (completed t))"
proof -
  assume sub: "completed t \<subseteq> {..<issued t}"
  then have "card ({..<issued t} - completed t) = card {..<issued t} - card (completed t)"
    by (intro card_Diff_subset) (auto intro: finite_subset)
  moreover from sub have "card (completed t) \<le> card {..<issued t}"
    by (intro card_mono) simp_all
  ultimately show ?thesis by (simp add: outstanding_def)
qed

lemma pending_outstanding:
  assumes "realizable es track0" and "each_once es track0"
  shows "pending (run es (new_coord cb)) = int (card (outstanding (tracked es track0)))"
proof -
  have "completed (tracked es track0) \<subseteq> {..<issued (tracked es track0)}
     \<and> pending (run es (new_coord cb))
         = int (issued (tracked es track0)) - int (card (completed (tracked es track0)))"
    using assms by (intro count_run) (simp_all add: track0_def new_coord_def)
  then show ?thesis by (simp add: card_outstanding)
qed

lemma realizable_take: "realizable es t \<Longrightarrow> realizable (take k es) t"
  by (metis append_take_drop_id realizable_append)

lemma each_once_take: "each_once es t \<Longrightarrow> each_once (take k es) t"
  by (metis append_take_drop_id each_once_append)

text \<open>
  C7. Take a sequence of events in which every function is called only after it was created
  and no per-item completion function is called twice. An item emission adds exactly one to
  \<^verbatim>\<open>pending\<close>, a per-item completion takes exactly one away, and no other event
  changes it; after every prefix of the sequence, and so at its end, \<^verbatim>\<open>pending\<close> is
  the number of items whose handler has been called and has not completed, and is not
  negative.
\<close>

theorem pending_counts_outstanding:
  assumes "realizable es track0" and "each_once es track0"
  shows "pending (step (EmitData l d) s) = pending s + 1
     \<and> pending (step (ItemDone i err) s) = pending s - 1
     \<and> pending (step (EmitEnd l) s) = pending s
     \<and> pending (step EndDone s) = pending s
     \<and> pending (step (EmitError l err) s) = pending s
     \<and> pending (step (CallGate this args) s) = pending s
     \<and> (\<forall>k. pending (run (take k es) (new_coord cb))
              = int (card (outstanding (tracked (take k es) track0)))
            \<and> 0 \<le> pending (run (take k es) (new_coord cb)))
     \<and> pending (run es (new_coord cb)) = int (card (outstanding (tracked es track0)))
     \<and> 0 \<le> pending (run es (new_coord cb))"
proof -
  have st: "pending (step (EmitData l d) s) = pending s + 1"
    "pending (step (ItemDone i err) s) = pending s - 1"
    "pending (step (EmitEnd l) s) = pending s"
    "pending (step EndDone s) = pending s"
    "pending (step (EmitError l err) s) = pending s"
    "pending (step (CallGate this args) s) = pending s"
    by (simp_all add: pending_handlers)
  have pre: "pending (run (take k es) (new_coord cb))
      = int (card (outstanding (tracked (take k es) track0)))" for k
    using assms by (intro pending_outstanding realizable_take each_once_take)
  have all: "pending (run es (new_coord cb)) = int (card (outstanding (tracked es track0)))"
    using assms by (rule pending_outstanding)
  from pre have nn: "0 \<le> pending (run (take k es) (new_coord cb))" for k
    by simp
  from all have nn': "0 \<le> pending (run es (new_coord cb))" by simp
  from st pre all nn nn' show ?thesis by blast
qed

theorem pending_counts_outstanding_witness:
  "realizable [EmitData (UserFn 0) (JNum 1), EmitData (UserFn 0) (JNum 2),
       ItemDone 1 Undefined, EmitEnd (UserFn 1), EndDone] track0
   \<and> each_once [EmitData (UserFn 0) (JNum 1), EmitData (UserFn 0) (JNum 2),
       ItemDone 1 Undefined, EmitEnd (UserFn 1), EndDone] track0
   \<and> outstanding (tracked [EmitData (UserFn 0) (JNum 1), EmitData (UserFn 0) (JNum 2),
       ItemDone 1 Undefined, EmitEnd (UserFn 1), EndDone] track0) = {0}
   \<and> pending (run [EmitData (UserFn 0) (JNum 1), EmitData (UserFn 0) (JNum 2),
       ItemDone 1 Undefined, EmitEnd (UserFn 1), EndDone] (new_coord 0)) = 1"
proof -
  let ?es = "[EmitData (UserFn 0) (JNum 1), EmitData (UserFn 0) (JNum 2),
       ItemDone 1 Undefined, EmitEnd (UserFn 1), EndDone]"
  have h1: "realizable ?es track0" by (simp add: track0_def)
  have h2: "each_once ?es track0" by (simp add: track0_def)
  have o: "outstanding (tracked ?es track0) = {0}"
    by (auto simp: track0_def outstanding_def)
  from pending_counts_outstanding [OF h1 h2, of _ _ _ _ _ _ _ 0]
  have "pending (run ?es (new_coord 0)) = int (card (outstanding (tracked ?es track0)))"
    by blast
  then have p: "pending (run ?es (new_coord 0)) = 1"
    unfolding o by simp
  from h1 h2 o p show ?thesis by blast
qed

section \<open>When success is reported\<close>

text \<open>
  C5 (as amended). Take a sequence of events in which every function is called only after
  it was created, and an event of it, other than a call of \<^verbatim>\<open>asyncCallback\<close> by
  the listener it was handed to, at which \<^verbatim>\<open>callback\<close> is called without error
  (with no argument or a falsy first one). That event is a completion of a per-item handler
  or of the end listener, and right after it \<^verbatim>\<open>is_done\<close> is set and
  \<^verbatim>\<open>pending\<close> is zero; if moreover no per-item completion function was called
  twice, no per-item handler is outstanding.
\<close>

theorem success_only_when_drained:
  assumes "realizable (pre @ [e]) track0"
    and "\<forall>this args. e \<noteq> CallGate this args"
    and "fired (run (pre @ [e]) (new_coord cb)) \<noteq> fired (run pre (new_coord cb))"
    and "no_error (snd (last (fired (run (pre @ [e]) (new_coord cb)))))"
  shows "is_done (run (pre @ [e]) (new_coord cb))
     \<and> pending (run (pre @ [e]) (new_coord cb)) = 0
     \<and> (each_once (pre @ [e]) track0 \<longrightarrow> outstanding (tracked (pre @ [e]) track0) = {})"
proof -
  let ?s = "run pre (new_coord cb)"
  have r: "run (pre @ [e]) (new_coord cb) = step e ?s"
    by (simp add: run_append)
  have ch: "fired (step e ?s) \<noteq> fired ?s"
    using assms(3) r by simp
  have ne: "no_error (snd (last (fired (step e ?s))))"
    using assms(4) r by simp
  have core: "is_done (step e ?s) \<and> pending (step e ?s) = 0"
  proof (cases e)
    case (EmitData l d)
    with ch show ?thesis by (simp add: data_handler_def)
  next
    case (ItemDone i err)
    let ?s' = "?s\<lparr>pending := pending ?s - 1\<rparr>"
    have f: "\<not> truthy err"
    proof
      assume t: "truthy err"
      then have "step e ?s = asyncCallback globalThis [err] ?s'"
        using ItemDone by (simp add: item_done_def Let_def)
      with ch have "fired (step e ?s) = fired ?s @ [(globalThis, [err])]"
        by (simp add: asyncCallback_def split: if_splits)
      with ne t show False by simp
    qed
    with ch ItemDone have "is_done ?s' \<and> pending ?s' = 0"
      by (auto simp: item_done_def Let_def split: if_splits)
    then show ?thesis
      using ItemDone by (simp add: pending_handlers is_done_handlers)
  next
    case (EmitEnd l)
    with ch show ?thesis by (simp add: end_handler_def)
  next
    case EndDone
    with ch have p: "pending ?s = 0"
      by (simp add: end_done_def split: if_splits)
    from assms(1) EndDone have "ended (tracked pre track0)"
      by (simp add: realizable_append)
    then have "is_done ?s" by (rule ended_is_done)
    with p EndDone show ?thesis by (simp add: pending_handlers is_done_handlers)
  next
    case (EmitError l err)
    with ch show ?thesis by (simp add: error_handler_def)
  next
    case (CallGate this args)
    with assms(2) show ?thesis by simp
  qed
  have "each_once (pre @ [e]) track0 \<longrightarrow> outstanding (tracked (pre @ [e]) track0) = {}"
  proof
    assume eo: "each_once (pre @ [e]) track0"
    have fin: "finite (outstanding (tracked (pre @ [e]) track0))"
      by (simp add: outstanding_def)
    from pending_outstanding [OF assms(1) eo, of cb] core r
    have "card (outstanding (tracked (pre @ [e]) track0)) = 0" by simp
    with fin show "outstanding (tracked (pre @ [e]) track0) = {}" by simp
  qed
  with core r show ?thesis by simp
qed

theorem success_only_when_drained_witness:
  "realizable ([EmitData (UserFn 0) (JNum 1), EmitEnd (UserFn 1), EndDone] @ [ItemDone 0 Null]) track0
   \<and> each_once ([EmitData (UserFn 0) (JNum 1), EmitEnd (UserFn 1), EndDone] @ [ItemDone 0 Null]) track0
   \<and> fired (run [EmitData (UserFn 0) (JNum 1), EmitEnd (UserFn 1), EndDone] (new_coord 0)) = []
   \<and> fired (run ([EmitData (UserFn 0) (JNum 1), EmitEnd (UserFn 1), EndDone] @ [ItemDone 0 Null])
        (new_coord 0)) = [(globalThis, [Null])]
   \<and> is_done (run ([EmitData (UserFn 0) (JNum 1), EmitEnd (UserFn 1), EndDone] @ [ItemDone 0 Null])
        (new_coord 0))
   \<and> pending (run ([EmitData (UserFn 0) (JNum 1), EmitEnd (UserFn 1), EndDone] @ [ItemDone 0 Null])
        (new_coord 0)) = 0
   \<and> outstanding (tracked ([EmitData (UserFn 0) (JNum 1), EmitEnd (UserFn 1), EndDone]
        @ [ItemDone 0 Null]) track0) = {}"
proof -
  let ?pre = "[EmitData (UserFn 0) (JNum 1), EmitEnd (UserFn 1), EndDone]"
  let ?e = "ItemDone 0 Null"
  have h1: "realizable (?pre @ [?e]) track0" by (simp add: track0_def)
  have h2: "\<forall>this args. ?e \<noteq> CallGate this args" by simp
  have f0: "fired (run ?pre (new_coord 0)) = []" by (simp add: coord_defs)
  have f1: "fired (run (?pre @ [?e]) (new_coord 0)) = [(globalThis, [Null])]"
    by (simp add: coord_defs)
  have h3: "fired (run (?pre @ [?e]) (new_coord 0)) \<noteq> fired (run ?pre (new_coord 0))"
    unfolding f0 f1 by simp
  have h4: "no_error (snd (last (fired (run (?pre @ [?e]) (new_coord 0)))))"
    unfolding f1 by simp
  have h5: "each_once (?pre @ [?e]) track0" by (simp add: track0_def)
  from success_only_when_drained [OF h1 h2 h3 h4] h5
  have "is_done (run (?pre @ [?e]) (new_coord 0))
      \<and> pending (run (?pre @ [?e]) (new_coord 0)) = 0
      \<and> outstanding (tracked (?pre @ [?e]) track0) = {}"
    by blast
  with h1 h5 f0 f1 show ?thesis by blast
qed

text \<open>
  C5 as stated fails: one item is in flight and the end signal has not arrived; the source
  emits an error, and the error listener handles it and calls its completion callback,
  which is \<^verbatim>\<open>asyncCallback\<close>, with no argument. \<^verbatim>\<open>callback\<close> is called
  without error while \<^verbatim>\<open>is_done\<close> is unset and \<^verbatim>\<open>pending\<close> is one.
\<close>

theorem error_listener_reports_success_early:
  "realizable [EmitData (UserFn 0) (JNum 1), EmitError (UserFn 2) (JStr ''boom''),
       CallGate globalThis []] track0
   \<and> each_once [EmitData (UserFn 0) (JNum 1), EmitError (UserFn 2) (JStr ''boom''),
       CallGate globalThis []] track0
   \<and> fired (run [EmitData (UserFn 0) (JNum 1), EmitError (UserFn 2) (JStr ''boom'')]
        (new_coord 0)) = []
   \<and> fired (run [EmitData (UserFn 0) (JNum 1), EmitError (UserFn 2) (JStr ''boom''),
       CallGate globalThis []] (new_coord 0)) = [(globalThis, [])]
   \<and> no_error []
   \<and> \<not> is_done (run [EmitData (UserFn 0) (JNum 1), EmitError (UserFn 2) (JStr ''boom''),
       CallGate globalThis []] (new_coord 0))
   \<and> pending (run [EmitData (UserFn 0) (JNum 1), EmitError (UserFn 2) (JStr ''boom''),
       CallGate globalThis []] (new_coord 0)) = 1
   \<and> outstanding (tracked [EmitData (UserFn 0) (JNum 1), EmitError (UserFn 2) (JStr ''boom''),
       CallGate globalThis []] track0) = {0}"
  by (simp add: coord_defs track0_def outstanding_def lessThan_Suc)

section \<open>The end signal\<close>

text \<open>
  C4 (as amended). The closure registered for the end signal sets \<^verbatim>\<open>is_done\<close> and
  calls the end listener with one argument, a completion function, and does nothing else.
  That function takes no argument; called while \<^verbatim>\<open>pending\<close> is zero it calls the gate
  with no argument. So when the end signal arrives while nothing is pending and the gate
  has not been called before, and in particular when it is the first event of all,
  \<^verbatim>\<open>callback\<close> has not been called when the end listener starts, is called with no
  argument when the end listener completes, and is not called again by anything that
  follows. When the gate has been called before, the call made at the completion of the end
  listener is absorbed and the calls of \<^verbatim>\<open>callback\<close> on record stay what they were.
\<close>

theorem end_completion_fires_when_idle:
  "step (EmitEnd l) s = s\<lparr>is_done := True, handled := handled s @ [(l, [EndDoneFn])]\<rparr>
   \<and> (pending s = 0 \<longrightarrow> step EndDone s = asyncCallback globalThis [] s)
   \<and> (pending (run pre (new_coord cb)) = 0 \<and> \<not> called (run pre (new_coord cb)) \<longrightarrow>
        fired (run (pre @ [EmitEnd l]) (new_coord cb)) = []
        \<and> fired (run (pre @ [EmitEnd l, EndDone] @ post) (new_coord cb)) = [(globalThis, [])])
   \<and> (called (run pre (new_coord cb)) \<longrightarrow>
        fired (run (pre @ [EmitEnd l, EndDone] @ post) (new_coord cb)) = fired (run pre (new_coord cb)))
   \<and> fired (run [EmitEnd l] (new_coord cb)) = []
   \<and> fired (run ([EmitEnd l, EndDone] @ post) (new_coord cb)) = [(globalThis, [])]"
proof -
  have a: "step (EmitEnd l) s = s\<lparr>is_done := True, handled := handled s @ [(l, [EndDoneFn])]\<rparr>"
    by (simp add: end_handler_def)
  have b: "pending s = 0 \<longrightarrow> step EndDone s = asyncCallback globalThis [] s"
    by (simp add: end_done_def)
  have gen: "fired (run (p @ [EmitEnd l]) (new_coord cb)) = []
      \<and> fired (run (p @ [EmitEnd l, EndDone] @ post) (new_coord cb)) = [(globalThis, [])]"
    if p: "pending (run p (new_coord cb)) = 0" and o: "\<not> called (run p (new_coord cb))" for p
  proof -
    let ?s = "run p (new_coord cb)"
    have f: "fired ?s = []" using o by (rule reachable_open_fired)
    have s1: "fired (run (p @ [EmitEnd l]) (new_coord cb)) = []"
      using f by (simp add: run_append end_handler_def)
    have s2: "run [EmitEnd l, EndDone] ?s
        = asyncCallback globalThis [] (end_handler l ?s)"
      using p by (simp add: end_done_def pending_handlers)
    have cl: "called (run [EmitEnd l, EndDone] ?s)"
      unfolding s2 by (rule called_asyncCallback)
    have "fired (run (p @ [EmitEnd l, EndDone] @ post) (new_coord cb))
        = fired (run post (run [EmitEnd l, EndDone] ?s))"
      by (simp add: run_append)
    also have "\<dots> = fired (run [EmitEnd l, EndDone] ?s)"
      using closed_run [OF cl] by simp
    also have "\<dots> = [(globalThis, [])]"
      unfolding s2 using o f by (simp add: asyncCallback_def end_handler_def)
    finally show ?thesis using s1 by simp
  qed
  have c: "pending (run pre (new_coord cb)) = 0 \<and> \<not> called (run pre (new_coord cb)) \<longrightarrow>
        fired (run (pre @ [EmitEnd l]) (new_coord cb)) = []
        \<and> fired (run (pre @ [EmitEnd l, EndDone] @ post) (new_coord cb)) = [(globalThis, [])]"
    using gen [of pre] by blast
  have e: "called (run pre (new_coord cb)) \<longrightarrow>
      fired (run (pre @ [EmitEnd l, EndDone] @ post) (new_coord cb)) = fired (run pre (new_coord cb))"
  proof
    assume cl: "called (run pre (new_coord cb))"
    have "run (pre @ [EmitEnd l, EndDone] @ post) (new_coord cb)
        = run ([EmitEnd l, EndDone] @ post) (run pre (new_coord cb))"
      by (simp only: run_append)
    then show "fired (run (pre @ [EmitEnd l, EndDone] @ post) (new_coord cb))
        = fired (run pre (new_coord cb))"
      using closed_run [OF cl, of "[EmitEnd l, EndDone] @ post"] by simp
  qed
  have "pending (run [] (new_coord cb)) = 0" and "\<not> called (run [] (new_coord cb))"
    by (simp_all add: new_coord_def)
  from gen [OF this]
  have d: "fired (run [EmitEnd l] (new_coord cb)) = []
      \<and> fired (run ([EmitEnd l, EndDone] @ post) (new_coord cb)) = [(globalThis, [])]"
    by simp
  from a b c d e show ?thesis by blast
qed

theorem end_completion_fires_when_idle_witness:
  "pending (run [EmitData (UserFn 0) (JNum 1), ItemDone 0 Undefined] (new_coord 0)) = 0
   \<and> \<not> called (run [EmitData (UserFn 0) (JNum 1), ItemDone 0 Undefined] (new_coord 0))
   \<and> step EndDone (run [EmitData (UserFn 0) (JNum 1), ItemDone 0 Undefined] (new_coord 0))
       = asyncCallback globalThis [] (run [EmitData (UserFn 0) (JNum 1), ItemDone 0 Undefined] (new_coord 0))
   \<and> fired (run ([EmitData (UserFn 0) (JNum 1), ItemDone 0 Undefined]
        @ [EmitEnd (UserFn 1), EndDone] @ [EndDone]) (new_coord 0)) = [(globalThis, [])]
   \<and> called (run [EmitData (UserFn 0) (JNum 1), ItemDone 0 (JStr ''E'')] (new_coord 0))
   \<and> fired (run ([EmitData (UserFn 0) (JNum 1), ItemDone 0 (JStr ''E'')]
        @ [EmitEnd (UserFn 1), EndDone] @ []) (new_coord 0)) = [(globalThis, [JStr ''E''])]"
proof -
  let ?pre = "[EmitData (UserFn 0) (JNum 1), ItemDone 0 Undefined]"
  have h1: "pending (run ?pre (new_coord 0)) = 0" by (simp add: coord_defs)
  have h2: "\<not> called (run ?pre (new_coord 0))" by (simp add: coord_defs)
  note r = end_completion_fires_when_idle [of "UserFn 1" "run ?pre (new_coord 0)" ?pre 0 "[EndDone]"]
  from r h1 have a: "step EndDone (run ?pre (new_coord 0)) = asyncCallback globalThis [] (run ?pre (new_coord 0))"
    by blast
  from r h1 h2 have b: "fired (run (?pre @ [EmitEnd (UserFn 1), EndDone] @ [EndDone]) (new_coord 0))
      = [(globalThis, [])]"
    by blast
  let ?q = "[EmitData (UserFn 0) (JNum 1), ItemDone 0 (JStr ''E'')]"
  have g1: "called (run ?q (new_coord 0))" by (simp add: coord_defs)
  have g2: "fired (run ?q (new_coord 0)) = [(globalThis, [JStr ''E''])]" by (simp add: coord_defs)
  from end_completion_fires_when_idle [of "UserFn 1" "run ?q (new_coord 0)" ?q 0 "[]"] g1
  have c0: "fired (run (?q @ [EmitEnd (UserFn 1), EndDone] @ []) (new_coord 0))
      = fired (run ?q (new_coord 0))"
    by blast
  have c: "fired (run (?q @ [EmitEnd (UserFn 1), EndDone] @ []) (new_coord 0))
      = [(globalThis, [JStr ''E''])]"
    unfolding c0 g2 by simp
  from h1 h2 a b g1 c show ?thesis by blast
qed

text \<open>
  C4 as stated fails: no item is ever emitted; the source emits an error and the error
  listener completes with it; then the end signal arrives and the end listener completes
  while \<^verbatim>\<open>pending\<close> is zero. The completion function calls the gate with no
  argument, but the call is absorbed: \<^verbatim>\<open>callback\<close> has received the error and is
  never called without error.
\<close>

theorem end_after_error_absorbed:
  "realizable [EmitError (UserFn 2) (JStr ''boom''), CallGate globalThis [JStr ''boom''],
       EmitEnd (UserFn 1), EndDone] track0
   \<and> issued (tracked [EmitError (UserFn 2) (JStr ''boom''), CallGate globalThis [JStr ''boom''],
       EmitEnd (UserFn 1), EndDone] track0) = 0
   \<and> pending (run [EmitError (UserFn 2) (JStr ''boom''), CallGate globalThis [JStr ''boom''],
       EmitEnd (UserFn 1)] (new_coord 0)) = 0
   \<and> is_done (run [EmitError (UserFn 2) (JStr ''boom''), CallGate globalThis [JStr ''boom''],
       EmitEnd (UserFn 1)] (new_coord 0))
   \<and> handled (run [EmitError (UserFn 2) (JStr ''boom''), CallGate globalThis [JStr ''boom''],
       EmitEnd (UserFn 1), EndDone] (new_coord 0))
       = [(UserFn 2, [Val (JStr ''boom''), AsyncCallbackFn]), (UserFn 1, [EndDoneFn])]
   \<and> fired (run [EmitError (UserFn 2) (JStr ''boom''), CallGate globalThis [JStr ''boom''],
       EmitEnd (UserFn 1), EndDone] (new_coord 0)) = [(globalThis, [JStr ''boom''])]
   \<and> \<not> no_error [JStr ''boom'']"
  by (simp add: coord_defs track0_def)

section \<open>Errors of the source\<close>

text \<open>
  C6 (as amended). The closure registered for the error event calls the error listener
  with the error and \<^verbatim>\<open>asyncCallback\<close> itself, and changes nothing else; a call of
  that completion callback is a call of the gate with the same receiver and arguments. If
  the gate has not been called before in the run, what the error listener passes to its
  completion callback is what \<^verbatim>\<open>callback\<close> is called with, then and never again;
  if it has, the call is absorbed and the calls of \<^verbatim>\<open>callback\<close> on record stay what
  they were.
\<close>

theorem error_listener_gets_gate:
  "step (EmitError l err) s = s\<lparr>handled := handled s @ [(l, [Val err, AsyncCallbackFn])]\<rparr>
   \<and> step (CallGate this args) s = asyncCallback this args s
   \<and> (\<not> called (run pre (new_coord cb)) \<longrightarrow>
        fired (run (pre @ CallGate this args # post) (new_coord cb)) = [(this, args)])
   \<and> (called (run pre (new_coord cb)) \<longrightarrow>
        fired (run (pre @ CallGate this args # post) (new_coord cb)) = fired (run pre (new_coord cb)))"
proof -
  let ?s = "run pre (new_coord cb)"
  have a: "step (EmitError l err) s = s\<lparr>handled := handled s @ [(l, [Val err, AsyncCallbackFn])]\<rparr>"
    by (simp add: error_handler_def)
  have b: "step (CallGate this args) s = asyncCallback this args s"
    by simp
  have cl: "called (asyncCallback this args ?s)"
    by (rule called_asyncCallback)
  have r: "fired (run (pre @ CallGate this args # post) (new_coord cb))
      = fired (asyncCallback this args ?s)"
    using closed_run [OF cl, of post] by (simp add: run_append)
  have c: "\<not> called ?s \<longrightarrow> fired (run (pre @ CallGate this args # post) (new_coord cb)) = [(this, args)]"
    unfolding r by (simp add: asyncCallback_def reachable_open_fired)
  have d: "called ?s \<longrightarrow> fired (run (pre @ CallGate this args # post) (new_coord cb)) = fired ?s"
    unfolding r by (simp add: asyncCallback_def)
  from a b c d show ?thesis by blast
qed

theorem error_listener_gets_gate_witness:
  "\<not> called (run [EmitData (UserFn 0) (JNum 1), EmitError (UserFn 2) (JStr ''boom'')] (new_coord 0))
   \<and> fired (run ([EmitData (UserFn 0) (JNum 1), EmitError (UserFn 2) (JStr ''boom'')]
        @ CallGate (JObj 4) [JStr ''E''] # [ItemDone 0 (JStr ''F'')]) (new_coord 0))
       = [(JObj 4, [JStr ''E''])]
   \<and> called (run [EmitData (UserFn 0) (JNum 1), ItemDone 0 (JStr ''E1''),
        EmitError (UserFn 2) (JStr ''boom'')] (new_coord 0))
   \<and> fired (run ([EmitData (UserFn 0) (JNum 1), ItemDone 0 (JStr ''E1''),
        EmitError (UserFn 2) (JStr ''boom'')] @ CallGate globalThis [JStr ''E2''] # []) (new_coord 0))
       = [(globalThis, [JStr ''E1''])]"
proof -
  let ?p1 = "[EmitData (UserFn 0) (JNum 1), EmitError (UserFn 2) (JStr ''boom'')]"
  let ?p2 = "[EmitData (UserFn 0) (JNum 1), ItemDone 0 (JStr ''E1''),
        EmitError (UserFn 2) (JStr ''boom'')]"
  have h1: "\<not> called (run ?p1 (new_coord 0))" by (simp add: coord_defs)
  have h2: "called (run ?p2 (new_coord 0))" by (simp add: coord_defs)
  have f2: "fired (run ?p2 (new_coord 0)) = [(globalThis, [JStr ''E1''])]" by (simp add: coord_defs)
  from error_listener_gets_gate [of _ _ _ "JObj 4" "[JStr ''E'']" ?p1 0 "[ItemDone 0 (JStr ''F'')]"] h1
  have r1: "fired (run (?p1 @ CallGate (JObj 4) [JStr ''E''] # [ItemDone 0 (JStr ''F'')]) (new_coord 0))
      = [(JObj 4, [JStr ''E''])]"
    by blast
  from error_listener_gets_gate [of _ _ _ globalThis "[JStr ''E2'']" ?p2 0 "[]"] h2
  have "fired (run (?p2 @ CallGate globalThis [JStr ''E2''] # []) (new_coord 0))
      = fired (run ?p2 (new_coord 0))"
    by blast
  then have r2: "fired (run (?p2 @ CallGate globalThis [JStr ''E2''] # []) (new_coord 0))
      = [(globalThis, [JStr ''E1''])]"
    unfolding f2 .
  from h1 r1 h2 r2 show ?thesis by blast
qed

text \<open>
  C6 as stated fails: an item fails with \<^verbatim>\<open>E1\<close>, then the source emits an error and
  the error listener completes with \<^verbatim>\<open>E2\<close>. The error listener was called with the
  error and \<^verbatim>\<open>asyncCallback\<close>, but what it signals is not the outcome:
  \<^verbatim>\<open>callback\<close> has received \<^verbatim>\<open>E1\<close> and never receives \<^verbatim>\<open>E2\<close>.
\<close>

theorem error_listener_completion_absorbed:
  "realizable [EmitData (UserFn 0) (JNum 1), ItemDone 0 (JStr ''E1''),
       EmitError (UserFn 2) (JStr ''boom''), CallGate globalThis [JStr ''E2'']] track0
   \<and> handled (run [EmitData (UserFn 0) (JNum 1), ItemDone 0 (JStr ''E1''),
       EmitError (UserFn 2) (JStr ''boom''), CallGate globalThis [JStr ''E2'']] (new_coord 0))
       = [(UserFn 0, [Val (JNum 1), PerItemDone]), (UserFn 2, [Val (JStr ''boom''), AsyncCallbackFn])]
   \<and> fired (run [EmitData (UserFn 0) (JNum 1), ItemDone 0 (JStr ''E1''),
       EmitError (UserFn 2) (JStr ''boom''), CallGate globalThis [JStr ''E2'']] (new_coord 0))
       = [(globalThis, [JStr ''E1''])]
   \<and> (globalThis, [JStr ''E2''])
       \<notin> set (fired (run [EmitData (UserFn 0) (JNum 1), ItemDone 0 (JStr ''E1''),
             EmitError (UserFn 2) (JStr ''boom''), CallGate globalThis [JStr ''E2'']] (new_coord 0)))"
  by (simp add: coord_defs track0_def)

section \<open>Registration\<close>

lemma async_on_other:
  "event \<noteq> JStr ''data'' \<Longrightarrow> event \<noteq> JStr ''end'' \<Longrightarrow> event \<noteq> JStr ''error'' \<Longrightarrow>
     async_on stramOn c this event l w = Inr (Undefined, w)"
  by (simp add: async_on_def)

lemma async_on_value: "async_on stramOn c this event l w = Inr (v, w') \<Longrightarrow> v = Undefined"
  by (auto simp: async_on_def split: if_splits sum.splits prod.splits)

text \<open>
  C8 (as amended). A registration for an event other than \<^verbatim>\<open>"data"\<close>,
  \<^verbatim>\<open>"end"\<close> and \<^verbatim>\<open>"error"\<close> is dropped: the replaced method does not call the
  original one, whatever that would have done, leaves the world of the source as it is,
  and returns \<^verbatim>\<open>undefined\<close>. Only the three intercepted events reach the original
  method, with the same receiver and event and with a closure around the listener.
\<close>

theorem other_events_are_dropped:
  "(event \<noteq> JStr ''data'' \<and> event \<noteq> JStr ''end'' \<and> event \<noteq> JStr ''error'' \<longrightarrow>
      async_on stramOn c this event l w = Inr (Undefined, w))
   \<and> async_on stramOn c this (JStr ''data'') l w
       = (case stramOn this (JStr ''data'') (DataWrap c l) w of
            Inl e \<Rightarrow> Inl e | Inr (r, w') \<Rightarrow> Inr (Undefined, w'))
   \<and> async_on stramOn c this (JStr ''end'') l w
       = (case stramOn this (JStr ''end'') (EndWrap c l) w of
            Inl e \<Rightarrow> Inl e | Inr (r, w') \<Rightarrow> Inr (Undefined, w'))
   \<and> async_on stramOn c this (JStr ''error'') l w
       = (case stramOn this (JStr ''error'') (ErrorWrap c l) w of
            Inl e \<Rightarrow> Inl e | Inr (r, w') \<Rightarrow> Inr (Undefined, w'))"
  by (simp add: async_on_def)

theorem other_events_are_dropped_witness:
  "JStr ''close'' \<noteq> JStr ''data'' \<and> JStr ''close'' \<noteq> JStr ''end'' \<and> JStr ''close'' \<noteq> JStr ''error''
   \<and> async_on emitter_on 0 (JObj 1) (JStr ''close'') (UserFn 5) [] = Inr (Undefined, [])"
proof -
  have h: "JStr ''close'' \<noteq> JStr ''data'' \<and> JStr ''close'' \<noteq> JStr ''end'' \<and> JStr ''close'' \<noteq> JStr ''error''"
    by simp
  from other_events_are_dropped [of "JStr ''close''" emitter_on 0 "JObj 1" "UserFn 5" "[]"] h
  have "async_on emitter_on 0 (JObj 1) (JStr ''close'') (UserFn 5) [] = Inr (Undefined, [])"
    by blast
  with h show ?thesis by blast
qed

text \<open>
  C8 as stated fails: on a source whose original \<^verbatim>\<open>on\<close> registers every listener, a
  listener for \<^verbatim>\<open>"close"\<close> registered through the replaced method is not registered
  at all, where the original method would have registered it.
\<close>

theorem close_listener_not_delegated:
  "emitter_on (JObj 1) (JStr ''close'') (UserFn 5) [] = Inr (JObj 1, [(JStr ''close'', UserFn 5)])
   \<and> async_on emitter_on 0 (JObj 1) (JStr ''close'') (UserFn 5) [] = Inr (Undefined, [])
   \<and> async_on emitter_on 0 (JObj 1) (JStr ''close'') (UserFn 5) []
       \<noteq> emitter_on (JObj 1) (JStr ''close'') (UserFn 5) []"
  by (simp add: async_on_def emitter_on_def)




text \<open>
  C10. Whatever the event and the listener, a call of the replaced method that returns
  returns \<^verbatim>\<open>undefined\<close>; it returns unless the event is one of the three intercepted
  ones and the original method throws. Around an original method that returns its
  receiver for chaining, the replaced method still returns \<^verbatim>\<open>undefined\<close>, never the
  source.
\<close>

theorem replaced_on_returns_undefined:
  "(\<forall>v w'. async_on stramOn c this event l w = Inr (v, w') \<longrightarrow> v = Undefined)
   \<and> ((\<exists>w'. async_on stramOn c this event l w = Inr (Undefined, w'))
       \<or> (\<exists>e wl. stramOn this event wl w = Inl e \<and> async_on stramOn c this event l w = Inl e))
   \<and> (\<exists>w'. async_on emitter_on c this event l ws = Inr (Undefined, w'))"
proof -
  have a: "\<forall>v w'. async_on stramOn c this event l w = Inr (v, w') \<longrightarrow> v = Undefined"
    by (blast dest: async_on_value)
  have b: "(\<exists>w'. async_on stramOn c this event l w = Inr (Undefined, w'))
       \<or> (\<exists>e wl. stramOn this event wl w = Inl e \<and> async_on stramOn c this event l w = Inl e)"
    by (auto simp: async_on_def split: sum.splits prod.splits)
  have c: "\<exists>w'. async_on emitter_on c this event l ws = Inr (Undefined, w')"
    by (simp add: async_on_def emitter_on_def)
  from a b c show ?thesis by blast
qed

theorem replaced_on_returns_undefined_witness:
  "async_on emitter_on 0 (JObj 1) (JStr ''data'') (UserFn 5) []
     = Inr (Undefined, [(JStr ''data'', DataWrap 0 (UserFn 5))])
   \<and> emitter_on (JObj 1) (JStr ''data'') (DataWrap 0 (UserFn 5)) []
     = Inr (JObj 1, [(JStr ''data'', DataWrap 0 (UserFn 5))])"
proof -
  from replaced_on_returns_undefined [of emitter_on 0 "JObj 1" "JStr ''data''" "UserFn 5" "[]"]
  have u: "\<forall>v w'. async_on emitter_on 0 (JObj 1) (JStr ''data'') (UserFn 5) [] = Inr (v, w')
      \<longrightarrow> v = Undefined"
    by blast
  have o: "emitter_on (JObj 1) (JStr ''data'') (DataWrap 0 (UserFn 5)) []
      = Inr (JObj 1, [(JStr ''data'', DataWrap 0 (UserFn 5))])"
    by (simp add: emitter_on_def)
  obtain v where e: "async_on emitter_on 0 (JObj 1) (JStr ''data'') (UserFn 5) []
      = Inr (v, [(JStr ''data'', DataWrap 0 (UserFn 5))])"
    by (simp add: async_on_def emitter_on_def)
  with u have "v = Undefined" by blast
  with e o show ?thesis by simp
qed

end
